theory Spec2Isabelle
  imports Complex_Main "HOL-Library.Word" "HOL-Library.Sublist"
begin

section \<open>JavaScript strings and values\<close>

text \<open>
  A JavaScript string is a sequence of UTF-16 code units; the regular expressions of
  \<^verbatim>\<open>templateProcessor.js\<close> carry no \<^verbatim>\<open>u\<close> flag, so they work on code units too.
\<close>

type_synonym jschar = "16 word"
type_synonym jsstring = "jschar list"

text \<open>ASCII literals of the source, written as Isabelle strings.\<close>

definition str :: "string \<Rightarrow> jsstring" where
  "str s = map (\<lambda>c. word_of_nat (of_char c)) s"

text \<open>
  The values a row object yields on property lookup \<^verbatim>\<open>data[key]\<close>: a string,
  \<^verbatim>\<open>null\<close>, or \<^verbatim>\<open>undefined\<close> for a key the row does not have.
\<close>

datatype jsval = Undefined | Null | Str jsstring

type_synonym row = "jsstring \<Rightarrow> jsval"

text \<open>\<^verbatim>\<open>String(value)\<close>.\<close>

fun String :: "jsval \<Rightarrow> jsstring" where
  "String Undefined = str ''undefined''"
| "String Null = str ''null''"
| "String (Str s) = s"

text \<open>
  The character classes of the regular expressions: \<^verbatim>\<open>\w\<close> is \<^verbatim>\<open>[A-Za-z0-9_]\<close>;
  \<^verbatim>\<open>\s\<close> is ECMAScript's WhiteSpace and LineTerminator (the set \<^verbatim>\<open>trim\<close>
  strips as well); \<^verbatim>\<open>.\<close> without the \<^verbatim>\<open>s\<close> flag is every code unit but a
  LineTerminator.
\<close>

definition isWordChar :: "jschar \<Rightarrow> bool" where
  "isWordChar c \<longleftrightarrow>
     (0x41 \<le> c \<and> c \<le> 0x5A) \<or> (0x61 \<le> c \<and> c \<le> 0x7A) \<or> (0x30 \<le> c \<and> c \<le> 0x39) \<or> c = 0x5F"

definition isLineTerminator :: "jschar \<Rightarrow> bool" where
  "isLineTerminator c \<longleftrightarrow> c = 0x0A \<or> c = 0x0D \<or> c = 0x2028 \<or> c = 0x2029"

definition isSpace :: "jschar \<Rightarrow> bool" where
  "isSpace c \<longleftrightarrow>
     c = 0x09 \<or> c = 0x0B \<or> c = 0x0C \<or> c = 0x20 \<or> c = 0xA0 \<or> c = 0x1680 \<or>
     (0x2000 \<le> c \<and> c \<le> 0x200A) \<or> c = 0x202F \<or> c = 0x205F \<or> c = 0x3000 \<or> c = 0xFEFF \<or>
     isLineTerminator c"

definition isDot :: "jschar \<Rightarrow> bool" where
  "isDot c \<longleftrightarrow> \<not> isLineTerminator c"

section \<open>Regular expressions\<close>

text \<open>
  The fragment of ECMAScript regular expressions the source uses: a sequence of literal
  code units, greedy \<^verbatim>\<open>*\<close> and \<^verbatim>\<open>+\<close> and lazy \<^verbatim>\<open>*?\<close> over a character class,
  and one capture group. \<open>rmatch\<close> is the backtracking matcher anchored at the start of
  its input: a greedy quantifier first tries to take one more code unit and falls back to
  the rest of the pattern; a lazy one first tries the rest of the pattern. It returns the
  text of the capture group and the input left after the match.
\<close>

datatype atom =
    Lit jschar
  | Star "jschar \<Rightarrow> bool"
  | Plus "jschar \<Rightarrow> bool"
  | LazyStar "jschar \<Rightarrow> bool"
  | Open
  | Close

type_synonym regex = "atom list"

fun rmatch :: "regex \<Rightarrow> jsstring \<Rightarrow> bool \<Rightarrow> jsstring \<Rightarrow> (jsstring \<times> jsstring) option" where
  "rmatch [] s rec cap = Some (cap, s)"
| "rmatch (Lit c # r) [] rec cap = None"
| "rmatch (Lit c # r) (x # xs) rec cap =
     (if x = c then rmatch r xs rec (if rec then cap @ [x] else cap) else None)"
| "rmatch (Open # r) s rec cap = rmatch r s True []"
| "rmatch (Close # r) s rec cap = rmatch r s False cap"
| "rmatch (Star p # r) [] rec cap = rmatch r [] rec cap"
| "rmatch (Star p # r) (x # xs) rec cap =
     (if p x then
        (case rmatch (Star p # r) xs rec (if rec then cap @ [x] else cap) of
           Some m \<Rightarrow> Some m
         | None \<Rightarrow> rmatch r (x # xs) rec cap)
      else rmatch r (x # xs) rec cap)"
| "rmatch (Plus p # r) [] rec cap = None"
| "rmatch (Plus p # r) (x # xs) rec cap =
     (if p x then rmatch (Star p # r) xs rec (if rec then cap @ [x] else cap) else None)"
| "rmatch (LazyStar p # r) [] rec cap = rmatch r [] rec cap"
| "rmatch (LazyStar p # r) (x # xs) rec cap =
     (case rmatch r (x # xs) rec cap of
        Some m \<Rightarrow> Some m
      | None \<Rightarrow>
          (if p x then rmatch (LazyStar p # r) xs rec (if rec then cap @ [x] else cap)
           else None))"

text \<open>
  \<^verbatim>\<open>String.prototype.replace\<close> with a global regular expression and a replacer
  function: the input is scanned from left to right; at the leftmost position where the
  pattern matches, the replacer is called with the matched text and the capture, its result
  goes to the output and the scan resumes after the match. Text produced by the replacer
  is not scanned. The replacer runs in a state (console output, random numbers), threaded
  in call order. After an empty match the scan moves on by one code unit.
\<close>

function replaceAll ::
  "regex \<Rightarrow> (jsstring \<Rightarrow> jsstring \<Rightarrow> 's \<Rightarrow> jsstring \<times> 's) \<Rightarrow> jsstring \<Rightarrow> 's \<Rightarrow> jsstring \<times> 's" where
  "replaceAll rx f [] st =
     (case rmatch rx [] False [] of
        None \<Rightarrow> ([], st)
      | Some (cap, rest) \<Rightarrow> f [] cap st)"
| "replaceAll rx f (x # xs) st =
     (case rmatch rx (x # xs) False [] of
        None \<Rightarrow> (case replaceAll rx f xs st of (out, st') \<Rightarrow> (x # out, st'))
      | Some (cap, rest) \<Rightarrow>
          (if length rest < length (x # xs) then
             (case f (take (length (x # xs) - length rest) (x # xs)) cap st of
                (new, st1) \<Rightarrow>
                  (case replaceAll rx f rest st1 of (out, st2) \<Rightarrow> (new @ out, st2)))
           else
             (case f [] cap st of
                (new, st1) \<Rightarrow>
                  (case replaceAll rx f xs st1 of (out, st2) \<Rightarrow> (new @ x # out, st2)))))"
  by pat_completeness auto
termination
  by (relation "measure (\<lambda>(rx, f, s, st). length s)") auto


text \<open>\<^verbatim>\<open>replace\<close> with a replacement string that holds no \<^verbatim>\<open>$\<close> pattern.\<close>

definition replaceStr :: "regex \<Rightarrow> jsstring \<Rightarrow> jsstring \<Rightarrow> jsstring" where
  "replaceStr rx new s = fst (replaceAll rx (\<lambda>m cap st. (new, st)) s ())"

text \<open>\<^verbatim>\<open>endsWith\<close>, \<^verbatim>\<open>startsWith\<close>, \<^verbatim>\<open>split\<close> on one code unit, \<^verbatim>\<open>trim\<close>.\<close>

definition endsWith :: "jsstring \<Rightarrow> jsstring \<Rightarrow> bool" where
  "endsWith s suf \<longleftrightarrow> length suf \<le> length s \<and> drop (length s - length suf) s = suf"

definition startsWith :: "jsstring \<Rightarrow> jsstring \<Rightarrow> bool" where
  "startsWith s pre \<longleftrightarrow> take (length pre) s = pre"

fun split :: "jschar \<Rightarrow> jsstring \<Rightarrow> jsstring list" where
  "split sep [] = [[]]"
| "split sep (x # xs) =
     (if x = sep then [] # split sep xs
      else (case split sep xs of [] \<Rightarrow> [[x]] | y # ys \<Rightarrow> (x # y) # ys))"

definition trim :: "jsstring \<Rightarrow> jsstring" where
  "trim s = rev (dropWhile isSpace (rev (dropWhile isSpace s)))"

section \<open>The template processor (templateProcessor.js)\<close>

text \<open>
  The process-wide state the processor touches: the console, and \<^verbatim>\<open>Math.random\<close>,
  given as the sequence of numbers it returns and the count of calls made so far.
\<close>

record pstate =
  console :: "jsstring list"
  mathRandom :: "nat \<Rightarrow> rat"
  drawn :: nat

definition warn :: "jsstring \<Rightarrow> pstate \<Rightarrow> pstate" where
  "warn msg st = st\<lparr>console := console st @ [msg]\<rparr>"

text \<open>
  \<^verbatim>\<open>str.replace(/'/g, "\\'").replace(/"/g, '\\"').replace(/\n/g, '\\n').replace(/\r/g, '\\r')\<close>
\<close>

definition escapeForJS :: "jsstring \<Rightarrow> jsstring" where
  "escapeForJS s =
     replaceStr [Lit 0x0D] [0x5C, 0x72]
       (replaceStr [Lit 0x0A] [0x5C, 0x6E]
         (replaceStr [Lit 0x22] [0x5C, 0x22]
           (replaceStr [Lit 0x27] [0x5C, 0x27] s)))"

text \<open>\<^verbatim>\<open>/\{\{\s*(\w+)\s*\}\}/g\<close> and \<^verbatim>\<open>/\[\[(.*?)\]\]/g\<close>\<close>

definition rxVariable :: regex where
  "rxVariable =
     [Lit 0x7B, Lit 0x7B, Star isSpace, Open, Plus isWordChar, Close, Star isSpace, Lit 0x7D, Lit 0x7D]"

definition rxSelection :: regex where
  "rxSelection = [Lit 0x5B, Lit 0x5B, Open, LazyStar isDot, Close, Lit 0x5D, Lit 0x5D]"

text \<open>The replacer of the first pass: \<^verbatim>\<open>(match, key) => { ... }\<close>.\<close>

definition isJsFile :: "jsstring \<Rightarrow> bool" where
  "isJsFile filePath \<longleftrightarrow> endsWith filePath (str ''.js'') \<or> endsWith filePath (str ''.jsx'')"

definition variableWarning :: "jsstring \<Rightarrow> jsstring" where
  "variableWarning key =
     str ''Warning: Template variable '' @ [0x27] @ key @ [0x27] @ str '' not found in data''"

definition variableReplacer ::
  "row \<Rightarrow> jsstring \<Rightarrow> jsstring \<Rightarrow> jsstring \<Rightarrow> pstate \<Rightarrow> jsstring \<times> pstate" where
  "variableReplacer data filePath match key st =
     (let value = data key in
      if value \<noteq> Undefined \<and> value \<noteq> Null then
        (let processedValue = String value in
         (if isJsFile filePath then escapeForJS processedValue else processedValue, st))
      else
        (match, warn (variableWarning key) st))"

text \<open>
  The replacer of the second pass: \<^verbatim>\<open>(match, options) => { ... }\<close>.
  \<^verbatim>\<open>Math.floor(Math.random() * choices.length)\<close> is computed on the exact product (the
  rounding of the floating-point multiplication is not modelled); an index outside the
  array reads \<^verbatim>\<open>undefined\<close>, which \<^verbatim>\<open>replace\<close> inserts as text.
\<close>

definition choicesOf :: "jsstring \<Rightarrow> jsstring list" where
  "choicesOf options = filter (\<lambda>s. length s > 0) (map trim (split 0x7C options))"

definition selectionWarning :: "jsstring \<Rightarrow> jsstring" where
  "selectionWarning match = str ''Warning: No valid options found in random selection: '' @ match"

definition selectionReplacer :: "jsstring \<Rightarrow> jsstring \<Rightarrow> pstate \<Rightarrow> jsstring \<times> pstate" where
  "selectionReplacer match options st =
     (let choices = choicesOf options in
      if length choices = 0 then
        (match, warn (selectionWarning match) st)
      else
        (let randomIndex = \<lfloor>mathRandom st (drawn st) * of_nat (length choices)\<rfloor>;
             st' = st\<lparr>drawn := drawn st + 1\<rparr>
         in (if 0 \<le> randomIndex \<and> randomIndex < int (length choices)
             then choices ! nat randomIndex else str ''undefined'', st')))"

definition substituteVariables :: "jsstring \<Rightarrow> row \<Rightarrow> jsstring \<Rightarrow> pstate \<Rightarrow> jsstring \<times> pstate" where
  "substituteVariables content data filePath st =
     replaceAll rxVariable (variableReplacer data filePath) content st"

definition selectRandom :: "jsstring \<Rightarrow> pstate \<Rightarrow> jsstring \<times> pstate" where
  "selectRandom content st = replaceAll rxSelection selectionReplacer content st"

definition processTemplate :: "jsstring \<Rightarrow> row \<Rightarrow> jsstring \<Rightarrow> pstate \<Rightarrow> jsstring \<times> pstate" where
  "processTemplate content data filePath st =
     (case substituteVariables content data filePath st of
        (processedContent, st1) \<Rightarrow> selectRandom processedContent st1)"


section \<open>Tokens and spans, as the specification describes them\<close>

text \<open>
  A double-brace token: \<^verbatim>\<open>{{\<close>, optional whitespace, an identifier of letters, digits and
  underscore, optional whitespace, \<^verbatim>\<open>}}\<close>.
\<close>

definition token :: "jsstring \<Rightarrow> jsstring \<Rightarrow> jsstring \<Rightarrow> jsstring" where
  "token ws1 key ws2 = str ''{{'' @ ws1 @ key @ ws2 @ str ''}}''"

definition isIdentifier :: "jsstring \<Rightarrow> bool" where
  "isIdentifier key \<longleftrightarrow> key \<noteq> [] \<and> list_all isWordChar key"


text \<open>
  A double-bracket span on one line: \<^verbatim>\<open>[[\<close>, a body that holds no line terminator and
  in which \<^verbatim>\<open>]]\<close> does not close earlier, and \<^verbatim>\<open>]]\<close>.
\<close>

fun hasClose :: "jsstring \<Rightarrow> bool" where
  "hasClose (a # b # r) = ((a = 0x5D \<and> b = 0x5D) \<or> hasClose (b # r))"
| "hasClose _ = False"

definition isSpanBody :: "jsstring \<Rightarrow> bool" where
  "isSpanBody body \<longleftrightarrow> list_all isDot body \<and> \<not> hasClose (body @ [0x5D])"

definition span :: "jsstring \<Rightarrow> jsstring" where
  "span body = str ''[['' @ body @ str '']]''"



text \<open>What \<open>escapeForJS\<close> makes of one code unit.\<close>

definition escapeChar :: "jschar \<Rightarrow> jsstring" where
  "escapeChar c =
     (if c = 0x27 then [0x5C, 0x27] else if c = 0x22 then [0x5C, 0x22]
      else if c = 0x0A then [0x5C, 0x6E] else if c = 0x0D then [0x5C, 0x72] else [c])"

section \<open>Example inputs\<close>

text \<open>The row of the specification's end-to-end scenario, and a console with a random source.\<close>

definition exampleRow :: row where
  "exampleRow k =
     (if k = str ''domain'' then Str (str ''a.test'')
      else if k = str ''title'' then Str (str ''A'')
      else if k = str ''description'' then Str (str ''d'')
      else if k = str ''phone'' then Str (str ''1'')
      else if k = str ''address'' then Str (str ''x'')
      else Undefined)"

definition initialState :: pstate where
  "initialState = \<lparr>console = [], mathRandom = (\<lambda>i. 1 / 2), drawn = 0\<rparr>"

text \<open>Rows whose title holds a quote, a backslash, a span, a token.\<close>

definition rowWithTitle :: "jsstring \<Rightarrow> row" where
  "rowWithTitle v k = (if k = str ''title'' then Str v else exampleRow k)"


section \<open>The file system\<close>

text \<open>
  A directory tree as \<^verbatim>\<open>fs.readdir(dir, {withFileTypes: true})\<close> shows it: a directory
  lists its entries by name, in the order \<^verbatim>\<open>readdir\<close> returns them; an entry is a
  regular file with its text (what \<^verbatim>\<open>readFile(path, 'utf8')\<close> yields), a directory, or
  something else (a symbolic link, a socket), for which \<^verbatim>\<open>isDirectory()\<close> and
  \<^verbatim>\<open>isFile()\<close> are both false. A path is the list of its segments.
\<close>

datatype fsnode = File jsstring | Dir "(jsstring \<times> fsnode) list" | Other

type_synonym path = "jsstring list"

text \<open>\<^verbatim>\<open>path.join\<close> of a directory and one segment, and the text of a path.\<close>

definition pathJoin :: "path \<Rightarrow> jsstring \<Rightarrow> path" where
  "pathJoin dir name = dir @ [name]"

fun pathString :: "path \<Rightarrow> jsstring" where
  "pathString [] = []"
| "pathString [s] = s"
| "pathString (s # t # r) = s @ [0x2F] @ pathString (t # r)"

text \<open>
  Every call into the file system or to a child process can fail. Which calls fail, and
  with which message, is given by the environment: a function from the operation to the
  error message, if any.
\<close>

datatype ioop =
    EnsureDir path
  | Remove path
  | Copy path path
  | Readdir path
  | ReadFile path
  | WriteFile path
  | ReadJson path
  | WriteJson path

type_synonym faults = "ioop \<Rightarrow> jsstring option"

text \<open>The node at a path below a root.\<close>

primrec readNode :: "path \<Rightarrow> fsnode \<Rightarrow> fsnode option" where
  "readNode [] n = Some n"
| "readNode (name # p) n =
     (case n of
        Dir items \<Rightarrow> (case map_of items name of Some c \<Rightarrow> readNode p c | None \<Rightarrow> None)
      | _ \<Rightarrow> None)"

fun updateEntry :: "jsstring \<Rightarrow> fsnode \<Rightarrow> (jsstring \<times> fsnode) list \<Rightarrow> (jsstring \<times> fsnode) list" where
  "updateEntry name c [] = []"
| "updateEntry name c ((k, old) # r) =
     (if k = name then (k, c) # r else (k, old) # updateEntry name c r)"

text \<open>
  \<^verbatim>\<open>readFile\<close> and \<^verbatim>\<open>writeFile\<close> at a path below a root. Writing replaces the text of a
  file, creates the file in an existing directory, and fails on a directory or below
  something that is not a directory.
\<close>

definition fsRead :: "path \<Rightarrow> fsnode \<Rightarrow> jsstring + jsstring" where
  "fsRead p tree =
     (case readNode p tree of
        Some (File content) \<Rightarrow> Inr content
      | Some (Dir items) \<Rightarrow> Inl (str ''EISDIR: illegal operation on a directory, read'')
      | Some Other \<Rightarrow> Inl (str ''EINVAL: invalid argument, read'')
      | None \<Rightarrow> Inl (str ''ENOENT: no such file or directory'' ))"

primrec fsWrite :: "path \<Rightarrow> jsstring \<Rightarrow> fsnode \<Rightarrow> jsstring + fsnode" where
  "fsWrite [] content n =
     (case n of
        File old \<Rightarrow> Inr (File content)
      | Dir items \<Rightarrow> Inl (str ''EISDIR: illegal operation on a directory, open'')
      | Other \<Rightarrow> Inl (str ''EINVAL: invalid argument, open''))"
| "fsWrite (name # p) content n =
     (case n of
        Dir items \<Rightarrow>
          (case map_of items name of
             Some c \<Rightarrow>
               (case fsWrite p content c of
                  Inl e \<Rightarrow> Inl e
                | Inr c' \<Rightarrow> Inr (Dir (updateEntry name c' items)))
           | None \<Rightarrow>
               if p = [] then Inr (Dir (items @ [(name, File content)]))
               else Inl (str ''ENOENT: no such file or directory, open''))
      | _ \<Rightarrow> Inl (str ''ENOTDIR: not a directory, open''))"

section \<open>The directory walker (templateProcessor.js)\<close>

text \<open>
  \<^verbatim>\<open>path.extname\<close> of an entry name (a name holds no separator): the text from the last
  dot on; empty when there is no dot, when the only dot is the first character, and for
  \<^verbatim>\<open>..\<close>.
\<close>

definition extname :: "jsstring \<Rightarrow> jsstring" where
  "extname name =
     (let afterDot = takeWhile (\<lambda>c. c \<noteq> 0x2E) (rev name) in
      if length afterDot = length name then []
      else
        (let startDot = length name - length afterDot - 1 in
         if startDot = 0 \<or> name = [0x2E, 0x2E] then [] else drop startDot name))"

definition excludedDirs :: "jsstring list" where
  "excludedDirs = [str ''node_modules'', str ''build'', str ''dist'', str ''.git'']"

definition defaultExtensions :: "jsstring list" where
  "defaultExtensions = [str ''.js'', str ''.jsx'', str ''.ts'', str ''.tsx'', str ''.html'', str ''.json'']"

text \<open>
  \<open>traverseDirectory\<close> runs over the entries \<^verbatim>\<open>readdir\<close> returned for \<open>currentPath\<close>
  (a path below \<open>dirPath\<close>) and appends to \<open>files\<close>; before it enters a directory, that
  directory is read.
\<close>

fun traverseDirectory ::
  "faults \<Rightarrow> path \<Rightarrow> jsstring list \<Rightarrow> path \<Rightarrow> (jsstring \<times> fsnode) list \<Rightarrow> path list \<Rightarrow> jsstring + path list" where
  "traverseDirectory flt dirPath extensions currentPath [] files = Inr files"
| "traverseDirectory flt dirPath extensions currentPath ((name, Dir sub) # items) files =
     (let fullPath = pathJoin currentPath name in
      if name \<notin> set excludedDirs then
        (case flt (Readdir (dirPath @ fullPath)) of
           Some e \<Rightarrow> Inl e
         | None \<Rightarrow>
             (case traverseDirectory flt dirPath extensions fullPath sub files of
                Inl e \<Rightarrow> Inl e
              | Inr files' \<Rightarrow> traverseDirectory flt dirPath extensions currentPath items files'))
      else traverseDirectory flt dirPath extensions currentPath items files)"
| "traverseDirectory flt dirPath extensions currentPath ((name, File content) # items) files =
     (let fullPath = pathJoin currentPath name; ext = extname name in
      if ext \<in> set extensions
      then traverseDirectory flt dirPath extensions currentPath items (files @ [fullPath])
      else traverseDirectory flt dirPath extensions currentPath items files)"
| "traverseDirectory flt dirPath extensions currentPath ((name, Other) # items) files =
     traverseDirectory flt dirPath extensions currentPath items files"

definition getAllFiles :: "faults \<Rightarrow> path \<Rightarrow> jsstring list \<Rightarrow> fsnode \<Rightarrow> jsstring + path list" where
  "getAllFiles flt dirPath extensions tree =
     (case flt (Readdir dirPath) of
        Some e \<Rightarrow> Inl e
      | None \<Rightarrow>
          (case tree of
             Dir items \<Rightarrow> traverseDirectory flt dirPath extensions [] items []
           | _ \<Rightarrow> Inl (str ''ENOTDIR: not a directory, scandir'')))"


text \<open>\<^verbatim>\<open>console.log\<close> and \<^verbatim>\<open>console.error\<close> write a line on the console, as
  \<^verbatim>\<open>console.warn\<close> does; a number in a template literal is written in decimal.\<close>

definition consoleLog :: "jsstring \<Rightarrow> pstate \<Rightarrow> pstate" where
  "consoleLog msg st = st\<lparr>console := console st @ [msg]\<rparr>"

definition consoleError :: "jsstring \<Rightarrow> pstate \<Rightarrow> pstate" where
  "consoleError msg st = st\<lparr>console := console st @ [msg]\<rparr>"

fun decimal :: "nat \<Rightarrow> jsstring" where
  "decimal n = (if n < 10 then [0x30 + of_nat n] else decimal (n div 10) @ [0x30 + of_nat (n mod 10)])"

declare decimal.simps [simp del]

text \<open>
  \<open>processFile\<close>: read, substitute, write back. The state is the tree below \<open>dirPath\<close>
  and the process state; \<open>file\<close> is the path of the file below \<open>dirPath\<close>. An error is
  logged and thrown again; what was written before stays written.
\<close>

definition processFile ::
  "faults \<Rightarrow> path \<Rightarrow> path \<Rightarrow> row \<Rightarrow> fsnode \<times> pstate \<Rightarrow> (jsstring + unit) \<times> (fsnode \<times> pstate)" where
  "processFile flt dirPath file data s =
     (case s of
        (tree, st) \<Rightarrow>
          (let filePath = dirPath @ file;
               failed = (\<lambda>e st'. consoleError
                  (str ''Error processing file '' @ pathString filePath @ str '': '' @ e) st')
           in
           case (case flt (ReadFile filePath) of Some e \<Rightarrow> Inl e | None \<Rightarrow> fsRead file tree) of
             Inl e \<Rightarrow> (Inl e, (tree, failed e st))
           | Inr content \<Rightarrow>
               (case processTemplate content data (pathString filePath) st of
                  (processedContent, st1) \<Rightarrow>
                    (case (case flt (WriteFile filePath) of
                             Some e \<Rightarrow> Inl e
                           | None \<Rightarrow> fsWrite file processedContent tree) of
                       Inl e \<Rightarrow> (Inl e, (tree, failed e st1))
                     | Inr tree' \<Rightarrow> (Inr (), (tree', st1))))))"

fun processFiles ::
  "faults \<Rightarrow> path \<Rightarrow> row \<Rightarrow> path list \<Rightarrow> fsnode \<times> pstate \<Rightarrow> (jsstring + unit) \<times> (fsnode \<times> pstate)" where
  "processFiles flt dirPath data [] s = (Inr (), s)"
| "processFiles flt dirPath data (file # files) s =
     (case processFile flt dirPath file data s of
        (Inl e, s') \<Rightarrow> (Inl e, s')
      | (Inr u, s') \<Rightarrow> processFiles flt dirPath data files s')"

text \<open>
  \<open>processDirectory\<close> has no \<^verbatim>\<open>return\<close> statement: when it does not throw, its promise
  resolves to \<^verbatim>\<open>undefined\<close>.
\<close>

definition processingMessage :: "nat \<Rightarrow> jsstring" where
  "processingMessage n = str ''Processing '' @ decimal n @ str '' template files...''"

definition processedMessage :: "nat \<Rightarrow> jsstring" where
  "processedMessage n = [0x2713] @ str '' Processed '' @ decimal n @ str '' files successfully''"

definition processDirectory ::
  "faults \<Rightarrow> path \<Rightarrow> row \<Rightarrow> jsstring list \<Rightarrow> fsnode \<times> pstate \<Rightarrow> (jsstring + jsval) \<times> (fsnode \<times> pstate)" where
  "processDirectory flt dirPath data extensions s =
     (case s of
        (tree, st) \<Rightarrow>
          (let failed = (\<lambda>e st'. consoleError (str ''Error processing directory: '' @ e) st') in
           case getAllFiles flt dirPath extensions tree of
             Inl e \<Rightarrow> (Inl e, (tree, failed e st))
           | Inr files \<Rightarrow>
               (let st1 = consoleLog (processingMessage (length files)) st in
                case processFiles flt dirPath data files (tree, st1) of
                  (Inl e, (tree', st2)) \<Rightarrow> (Inl e, (tree', failed e st2))
                | (Inr u, (tree', st2)) \<Rightarrow>
                    (Inr Undefined,
                     (tree', consoleLog (processedMessage (length files)) st2)))))"

text \<open>
  What the specification counts: the files below a directory whose extension is in the
  set, directories with an excluded name pruned.
\<close>

fun matchingFiles :: "jsstring list \<Rightarrow> path \<Rightarrow> (jsstring \<times> fsnode) list \<Rightarrow> path list" where
  "matchingFiles extensions cur [] = []"
| "matchingFiles extensions cur ((name, Dir sub) # items) =
     (if name \<in> set excludedDirs then matchingFiles extensions cur items
      else matchingFiles extensions (cur @ [name]) sub @ matchingFiles extensions cur items)"
| "matchingFiles extensions cur ((name, File content) # items) =
     (if extname name \<in> set extensions then (cur @ [name]) # matchingFiles extensions cur items
      else matchingFiles extensions cur items)"
| "matchingFiles extensions cur ((name, Other) # items) = matchingFiles extensions cur items"


text \<open>
  A path lies inside an excluded directory when one of the directories it runs through
  has an excluded name. In a file system, the names in one directory are distinct.
\<close>

definition insideExcluded :: "path \<Rightarrow> bool" where
  "insideExcluded p \<longleftrightarrow> (\<exists>name \<in> set (butlast p). name \<in> set excludedDirs)"

fun distinctNames :: "(jsstring \<times> fsnode) list \<Rightarrow> bool" where
  "distinctNames [] = True"
| "distinctNames ((name, Dir sub) # items) =
     (name \<notin> fst ` set items \<and> distinctNames sub \<and> distinctNames items)"
| "distinctNames ((name, n) # items) = (name \<notin> fst ` set items \<and> distinctNames items)"

text \<open>
  Two environments agree outside the excluded directories when they let the same calls
  fail there: reading a directory that neither is nor lies inside an excluded one, and
  reading or writing a file that does not lie inside one.
\<close>

definition agreeOutside :: "path \<Rightarrow> faults \<Rightarrow> faults \<Rightarrow> bool" where
  "agreeOutside dirPath flt flt' \<longleftrightarrow>
     (\<forall>p. set p \<inter> set excludedDirs = {} \<longrightarrow> flt (Readdir (dirPath @ p)) = flt' (Readdir (dirPath @ p))) \<and>
     (\<forall>p. \<not> insideExcluded p \<longrightarrow>
        flt (ReadFile (dirPath @ p)) = flt' (ReadFile (dirPath @ p)) \<and>
        flt (WriteFile (dirPath @ p)) = flt' (WriteFile (dirPath @ p)))"


text \<open>A later process state whose console holds the earlier lines and more.\<close>

definition grows :: "pstate \<Rightarrow> pstate \<Rightarrow> bool" where
  "grows s s' \<longleftrightarrow> (\<exists>ws. console s' = console s @ ws)"


text \<open>A template tree, and an environment in which nothing fails.\<close>

definition exampleItems :: "(jsstring \<times> fsnode) list" where
  "exampleItems =
     [(str ''index.html'', File (str ''Hello {{title}}'')),
      (str ''notes.txt'', File (str ''{{title}}'')),
      (str ''src'',
       Dir [(str ''App.js'', File (str ''t = {{title}}'')),
            (str ''node_modules'', Dir [(str ''lib.js'', File (str ''{{title}}''))])]),
      (str ''node_modules'', Dir [(str ''dep.js'', File (str ''{{title}}''))]),
      (str ''dist'', Dir [(str ''out.js'', File (str ''{{title}}''))]),
      (str ''builder.js'', File (str ''{{title}}'')),
      (str ''.gitignore'', File (str ''build''))]"

definition noFaults :: faults where
  "noFaults op = None"

definition failingInside :: faults where
  "failingInside op =
     (if op = ReadFile [str ''src'', str ''node_modules'', str ''lib.js''] \<or>
         op = Readdir [str ''src'', str ''node_modules''] \<or> op = Readdir [str ''dist'']
      then Some (str ''EACCES: permission denied'') else None)"


section \<open>The tree materializer (the copy in \<open>buildWebsite\<close>)\<close>

text \<open>
  The filter given to \<^verbatim>\<open>fs.copy\<close>, on \<^verbatim>\<open>path.relative(templatePath, src)\<close>:
  \<^verbatim>\<open>!relativePath.startsWith('node_modules') && !relativePath.startsWith('build') &&
  !relativePath.startsWith('.git')\<close>.
\<close>

definition copyFilter :: "jsstring \<Rightarrow> bool" where
  "copyFilter relativePath \<longleftrightarrow>
     \<not> startsWith relativePath (str ''node_modules'') \<and>
     \<not> startsWith relativePath (str ''build'') \<and>
     \<not> startsWith relativePath (str ''.git'')"

text \<open>
  \<^verbatim>\<open>fs.copy\<close> of the fs-extra library with a filter: the filter is asked for the source
  itself and then for every entry of a directory that is copied; an entry it refuses is
  not copied and, when it is a directory, not entered. \<open>rel\<close> is the path of the
  directory below the template root.
\<close>

fun copyItems :: "path \<Rightarrow> (jsstring \<times> fsnode) list \<Rightarrow> (jsstring \<times> fsnode) list" where
  "copyItems rel [] = []"
| "copyItems rel ((name, Dir sub) # items) =
     (if copyFilter (pathString (rel @ [name]))
      then (name, Dir (copyItems (rel @ [name]) sub)) # copyItems rel items
      else copyItems rel items)"
| "copyItems rel ((name, n) # items) =
     (if copyFilter (pathString (rel @ [name])) then (name, n) # copyItems rel items
      else copyItems rel items)"

definition copyTemplate :: "fsnode \<Rightarrow> fsnode option" where
  "copyTemplate template =
     (if copyFilter (pathString [])
      then Some (case template of Dir items \<Rightarrow> Dir (copyItems [] items) | n \<Rightarrow> n)
      else None)"

section \<open>The website builder (websiteBuilderFixed.js)\<close>

text \<open>
  A parsed JSON document. An object lists its properties in the order
  \<^verbatim>\<open>JSON.stringify\<close> writes them; assigning to a property keeps its place, a new
  property goes last. Assigning to a property of \<^verbatim>\<open>null\<close> throws a TypeError;
  on a number, a string or a boolean the assignment is ignored, and on an array it sets a
  property that \<^verbatim>\<open>JSON.stringify\<close> does not write.
\<close>

datatype json =
    JNull
  | JBool bool
  | JNumber rat
  | JString jsstring
  | JArray "json list"
  | JObject "(jsstring \<times> json) list"





text \<open>
  What the builder takes from outside: the template directory, the JSON parser and
  printer (\<^verbatim>\<open>readJson\<close>, \<^verbatim>\<open>writeJson\<close> with two spaces), Unicode lower-casing, the
  child process \<^verbatim>\<open>npm\<close> (run in a project directory, it leaves a tree and succeeds or
  fails with a message), and the calls that fail. The last two are given for each call of
  \<open>buildWebsite\<close>, counted from the start of the run.
\<close>

record env =
  template :: fsnode
  parseJson :: "jsstring \<Rightarrow> jsstring + json"
  stringifyJson :: "json \<Rightarrow> jsstring"
  unicodeLower :: "jsstring \<Rightarrow> jsstring"
  npm :: "nat \<Rightarrow> jsstring \<Rightarrow> fsnode \<Rightarrow> (jsstring + unit) \<times> fsnode"
  faultsOf :: "nat \<Rightarrow> faults"

















text \<open>
  \<open>buildWebsite\<close>. The body of its \<^verbatim>\<open>try\<close> block is the sequence of the awaited calls;
  the \<^verbatim>\<open>catch\<close> turns whatever was thrown into the failed result. Only
  \<^verbatim>\<open>path.join(outputPath, domain)\<close> stands before the \<^verbatim>\<open>try\<close>: it throws a TypeError
  when \<open>domain\<close> is not a string.
\<close>

record buildResult =
  domain :: jsstring
  success :: bool
  path :: "path option"
  error :: "jsstring option"














section \<open>Lemmas\<close>

lemma rmatch_suffix:
  "rmatch rx s rec cap = Some (c, r) \<Longrightarrow> \<exists>m. s = m @ r"
  by (induction rx s rec cap rule: rmatch.induct)
    (auto split: if_splits option.splits, ((metis append_Cons)+)?)

lemma rmatch_length:
  "rmatch rx s rec cap = Some (c, r) \<Longrightarrow> length r \<le> length s"
  using rmatch_suffix by fastforce






lemma brace_class [simp]:
  "\<not> isWordChar 0x7D" "\<not> isSpace 0x7D" "\<not> isWordChar 0x7B" "\<not> isSpace 0x7B"
  by (simp_all add: isWordChar_def isSpace_def isLineTerminator_def)















lemma replaceAll_nomatch:
  assumes "rmatch rx (x # xs) False [] = None"
  shows "replaceAll rx f (x # xs) st = (case replaceAll rx f xs st of (out, st') \<Rightarrow> (x # out, st'))"
  using assms by simp
















lemma bracket_class [simp]: "isDot 0x5D" "isDot 0x5B"
  by (simp_all add: isDot_def isLineTerminator_def)

























lemma traverseDirectory_matching:
  "traverseDirectory flt dirPath exts cur items files = Inr out \<Longrightarrow>
   out = files @ matchingFiles exts cur items"
proof (induction flt dirPath exts cur items files arbitrary: out rule: traverseDirectory.induct)
  case (2 flt dirPath exts cur name sub items files)
  show ?case
  proof (cases "name \<in> set excludedDirs")
    case True
    with 2 show ?thesis by (simp add: pathJoin_def)
  next
    case False
    with 2(4) obtain files' where
      a: "flt (Readdir (dirPath @ pathJoin cur name)) = None"
      and b: "traverseDirectory flt dirPath exts (pathJoin cur name) sub files = Inr files'"
      and c: "traverseDirectory flt dirPath exts cur items files' = Inr out"
      by (auto simp: Let_def split: option.splits sum.splits)
    from 2(1)[OF refl False a b] have "files' = files @ matchingFiles exts (pathJoin cur name) sub" .
    moreover from 2(2)[OF refl False a b c] have "out = files' @ matchingFiles exts cur items" .
    ultimately show ?thesis using False by (simp add: pathJoin_def)
  qed
next
  case (3 flt dirPath exts cur name content items files)
  then show ?case by (auto simp: Let_def pathJoin_def split: if_splits)
qed auto

lemma getAllFiles_matching:
  "getAllFiles flt dirPath exts tree = Inr files \<Longrightarrow>
   \<exists>items. tree = Dir items \<and> files = matchingFiles exts [] items"
  by (auto simp: getAllFiles_def split: option.splits fsnode.splits dest: traverseDirectory_matching)

text \<open>No path the walker lists runs through a directory with an excluded name.\<close>

lemma matchingFiles_paths:
  "p \<in> set (matchingFiles exts cur items) \<Longrightarrow>
   \<exists>q. p = cur @ q \<and> q \<noteq> [] \<and> set (butlast q) \<inter> set excludedDirs = {} \<and> extname (last q) \<in> set exts"
proof (induction exts cur items rule: matchingFiles.induct)
  case (2 exts cur name sub items)
  show ?case
  proof (cases "name \<in> set excludedDirs")
    case True
    with 2 show ?thesis by simp
  next
    case False
    with 2(4) consider "p \<in> set (matchingFiles exts (cur @ [name]) sub)" | "p \<in> set (matchingFiles exts cur items)"
      by auto
    then show ?thesis
    proof cases
      case 1
      from 2(2)[OF False 1] obtain q where
        q: "p = (cur @ [name]) @ q" "q \<noteq> []" "set (butlast q) \<inter> set excludedDirs = {}" "extname (last q) \<in> set exts"
        by blast
      with False show ?thesis
        by (intro exI[of _ "name # q"]) auto
    next
      case 2
      with "2.IH"(3)[OF False] show ?thesis by simp
    qed
  qed
next
  case (3 exts cur name content items)
  then show ?case by (auto split: if_splits)
qed auto


lemma map_of_updateEntry:
  "map_of (updateEntry name c items) k =
     (if k = name then (case map_of items name of Some old \<Rightarrow> Some c | None \<Rightarrow> None)
      else map_of items k)"
  by (induction name c items rule: updateEntry.induct) auto

lemma fsWrite_frame:
  "fsWrite p v t = Inr t' \<Longrightarrow> \<not> prefix q p \<Longrightarrow> readNode q t' = readNode q t"
proof (induction p arbitrary: q t t')
  case Nil
  then show ?case by (cases q; cases t) auto
next
  case (Cons name p)
  from Cons.prems(1) obtain items where t: "t = Dir items" by (cases t) auto
  from Cons.prems(2) obtain k q' where q: "q = k # q'" by (cases q) auto
  show ?case
  proof (cases "map_of items name")
    case None
    with Cons.prems t have p: "p = []" and t': "t' = Dir (items @ [(name, File v)])"
      by (auto split: if_splits)
    show ?thesis
    proof (cases "k = name")
      case True
      with Cons.prems(2) q p have "q' \<noteq> []" by auto
      then obtain a b where "q' = a # b" by (cases q') auto
      with True None t t' q show ?thesis by (simp add: map_add_def)
    next
      case False
      with None t t' q show ?thesis by (simp add: map_add_def split: option.splits)
    qed
  next
    case (Some c)
    with Cons.prems t obtain c' where c': "fsWrite p v c = Inr c'"
      and t': "t' = Dir (updateEntry name c' items)"
      by (auto split: sum.splits)
    show ?thesis
    proof (cases "k = name")
      case True
      with Cons.prems(2) q have "\<not> prefix q' p" by simp
      from Cons.IH[OF c' this] True Some t t' q show ?thesis
        by (simp add: map_of_updateEntry)
    next
      case False
      with t t' q show ?thesis by (simp add: map_of_updateEntry)
    qed
  qed
qed

lemma fsWrite_read: "fsWrite p v t = Inr t' \<Longrightarrow> readNode p t' = Some (File v)"
proof (induction p arbitrary: t t')
  case Nil
  then show ?case by (cases t) auto
next
  case (Cons name p)
  from Cons.prems obtain items where t: "t = Dir items" by (cases t) auto
  show ?case
  proof (cases "map_of items name")
    case None
    with Cons.prems t show ?thesis by (auto simp: map_add_def split: if_splits)
  next
    case (Some c)
    with Cons.prems t obtain c' where c': "fsWrite p v c = Inr c'"
      and t': "t' = Dir (updateEntry name c' items)"
      by (auto split: sum.splits)
    from Cons.IH[OF c'] Some t' show ?thesis by (simp add: map_of_updateEntry)
  qed
qed


lemma fsRead_file: "fsRead p t = Inr c \<longleftrightarrow> readNode p t = Some (File c)"
  by (auto simp: fsRead_def split: option.splits fsnode.splits)

text \<open>What one \<open>processFile\<close> does to the tree: nothing outside its file.\<close>

lemma processFile_frame:
  assumes "processFile flt dirPath file data (tree, st) = (r, (tree', st'))" "\<not> prefix q file"
  shows "readNode q tree' = readNode q tree"
  using assms
  by (auto simp: processFile_def Let_def split: option.splits sum.splits prod.splits
      dest: fsWrite_frame)

lemma processFile_success:
  assumes "processFile flt dirPath file data (tree, st) = (Inr u, (tree', st'))"
  shows "\<exists>c. readNode file tree = Some (File c) \<and>
           readNode file tree' = Some (File (fst (processTemplate c data (pathString (dirPath @ file)) st))) \<and>
           st' = snd (processTemplate c data (pathString (dirPath @ file)) st)"
  using assms
  by (auto simp: processFile_def Let_def fsRead_file split: option.splits sum.splits prod.splits
      dest: fsWrite_read)

lemma processFiles_frame:
  assumes "processFiles flt dirPath data files (tree, st) = (r, (tree', st'))"
    "\<forall>file \<in> set files. \<not> prefix q file"
  shows "readNode q tree' = readNode q tree"
  using assms
proof (induction files arbitrary: tree st)
  case Nil
  then show ?case by simp
next
  case (Cons f files)
  obtain r1 tree1 st1 where 1: "processFile flt dirPath f data (tree, st) = (r1, (tree1, st1))"
    by (metis prod.exhaust)
  have f: "readNode q tree1 = readNode q tree"
    using processFile_frame[OF 1] Cons.prems(2) by simp
  show ?case
  proof (cases r1)
    case (Inl e)
    with Cons.prems(1) 1 f show ?thesis by simp
  next
    case (Inr u)
    with Cons.prems(1) 1 have "processFiles flt dirPath data files (tree1, st1) = (r, (tree', st'))"
      by simp
    from Cons.IH[OF this] Cons.prems(2) f show ?thesis by simp
  qed
qed

lemma prefix_butlast:
  assumes "prefix q p" "q \<noteq> p"
  shows "set q \<subseteq> set (butlast p)"
proof -
  from assms obtain r where "p = q @ r" "r \<noteq> []" by (auto simp: prefix_def)
  then show ?thesis by (simp add: butlast_append)
qed

lemma insideExcluded_not_prefix:
  assumes "insideExcluded q" "set (butlast p) \<inter> set excludedDirs = {}"
  shows "\<not> prefix q p"
proof
  assume pre: "prefix q p"
  from assms(1) obtain name where n: "name \<in> set (butlast q)" "name \<in> set excludedDirs"
    by (auto simp: insideExcluded_def)
  have "name \<in> set (butlast p)"
  proof (cases "q = p")
    case True
    with n show ?thesis by simp
  next
    case False
    from prefix_butlast[OF pre False] n(1) show ?thesis
      by (meson in_set_butlastD subsetD)
  qed
  with n(2) assms(2) show False by auto
qed

lemma processDirectory_tree:
  assumes "getAllFiles flt dirPath exts tree = Inr files"
  shows "fst (snd (processDirectory flt dirPath data exts (tree, st))) =
     fst (snd (processFiles flt dirPath data files
       (tree, consoleLog (processingMessage (length files)) st)))"
  using assms by (simp add: processDirectory_def Let_def split: prod.splits sum.splits)

lemma processDirectory_frame:
  assumes run: "processDirectory flt dirPath data exts (tree, st) = (r, (tree', st'))"
    and q: "insideExcluded q"
  shows "readNode q tree' = readNode q tree"
proof (cases "getAllFiles flt dirPath exts tree")
  case (Inl e)
  with run show ?thesis by (simp add: processDirectory_def)
next
  case (Inr files)
  from getAllFiles_matching[OF Inr] obtain items where fm: "files = matchingFiles exts [] items" by blast
  have np: "\<forall>f \<in> set files. \<not> prefix q f"
  proof
    fix f assume "f \<in> set files"
    with fm matchingFiles_paths[of f exts "[]" items]
    have "set (butlast f) \<inter> set excludedDirs = {}" by auto
    with q show "\<not> prefix q f" by (rule insideExcluded_not_prefix)
  qed
  let ?st1 = "consoleLog (processingMessage (length files)) st"
  obtain r1 tree1 st1 where 1: "processFiles flt dirPath data files (tree, ?st1) = (r1, (tree1, st1))"
    by (metis prod.exhaust)
  from processFiles_frame[OF 1 np] have "readNode q tree1 = readNode q tree" .
  moreover have "tree' = tree1"
    using processDirectory_tree[OF Inr, of data st] run 1 by simp
  ultimately show ?thesis by simp
qed


lemma readNode_append:
  "readNode (p @ r) t = (case readNode p t of Some n \<Rightarrow> readNode r n | None \<Rightarrow> None)"
  by (induction p arbitrary: t) (auto split: fsnode.splits option.splits)

lemma file_not_prefix:
  assumes "readNode f t = Some (File c)" "readNode g t = Some (File c')" "f \<noteq> g"
  shows "\<not> prefix f g"
proof
  assume "prefix f g"
  with assms(3) obtain r where g: "g = f @ r" "r \<noteq> []" by (auto simp: prefix_def)
  then obtain a b where "r = a # b" by (cases r) auto
  with assms(1,2) g show False by (simp add: readNode_append)
qed

lemma processFiles_content:
  assumes "processFiles flt dirPath data files (tree, st) = (Inr u, (tree', st'))"
    "distinct files" "\<forall>f \<in> set files. \<exists>c. readNode f tree = Some (File c)"
  shows "\<forall>f \<in> set files. \<exists>c s. readNode f tree = Some (File c) \<and>
     readNode f tree' = Some (File (fst (processTemplate c data (pathString (dirPath @ f)) s)))"
  using assms
proof (induction files arbitrary: tree st)
  case Nil
  then show ?case by simp
next
  case (Cons f files)
  obtain r1 tree1 st1 where 1: "processFile flt dirPath f data (tree, st) = (r1, (tree1, st1))"
    by (metis prod.exhaust)
  with Cons.prems(1) have r1: "r1 = Inr ()" and rest: "processFiles flt dirPath data files (tree1, st1) = (Inr u, (tree', st'))"
    by (cases r1; simp)+
  from processFile_success[OF 1[unfolded r1]] obtain c where
    c: "readNode f tree = Some (File c)"
       "readNode f tree1 = Some (File (fst (processTemplate c data (pathString (dirPath @ f)) st)))"
    by blast
  have others: "readNode g tree1 = readNode g tree" if "g \<in> set files" for g
  proof -
    from that Cons.prems(2,3) obtain c' where "readNode g tree = Some (File c')" "g \<noteq> f" by auto
    with c(1) have "\<not> prefix g f" by (intro file_not_prefix) auto
    with 1 show ?thesis by (rule processFile_frame)
  qed
  have ih: "\<forall>g \<in> set files. \<exists>c s. readNode g tree1 = Some (File c) \<and>
     readNode g tree' = Some (File (fst (processTemplate c data (pathString (dirPath @ g)) s)))"
    using rest Cons.prems(2,3) others by (intro Cons.IH) auto
  have "\<forall>g \<in> set files. \<not> prefix f g"
  proof
    fix g assume g: "g \<in> set files"
    with Cons.prems(2,3) obtain c' where "readNode g tree = Some (File c')" "f \<noteq> g" by auto
    with c(1) show "\<not> prefix f g" by (intro file_not_prefix) auto
  qed
  from processFiles_frame[OF rest this] c(2)
  have "readNode f tree' = Some (File (fst (processTemplate c data (pathString (dirPath @ f)) st)))"
    by simp
  with c(1) ih others show ?case by auto
qed

lemma matchingFiles_first:
  "p \<in> set (matchingFiles exts cur items) \<Longrightarrow> \<exists>k r. p = cur @ k # r \<and> k \<in> fst ` set items"
proof (induction exts cur items rule: matchingFiles.induct)
  case (2 exts cur name sub items)
  consider "p \<in> set (matchingFiles exts cur items)"
    | "name \<notin> set excludedDirs" "p \<in> set (matchingFiles exts (cur @ [name]) sub)"
    using 2(4) by (auto split: if_splits)
  then show ?case
  proof cases
    case 1
    have "\<exists>k r. p = cur @ k # r \<and> k \<in> fst ` set items"
    proof (cases "name \<in> set excludedDirs")
      case True
      from 2(1)[OF True 1] show ?thesis .
    next
      case False
      from 2(3)[OF False 1] show ?thesis .
    qed
    then show ?thesis by auto
  next
    case 2
    from matchingFiles_paths[OF 2(2)] obtain q where "p = (cur @ [name]) @ q" by blast
    then have "p = cur @ name # q" by simp
    then show ?thesis by auto
  qed
next
  case (3 exts cur name content items)
  consider "p = cur @ [name]" | "p \<in> set (matchingFiles exts cur items)"
    using 3(3) by (auto split: if_splits)
  then show ?case
  proof cases
    case 1
    then show ?thesis by auto
  next
    case 2
    have "\<exists>k r. p = cur @ k # r \<and> k \<in> fst ` set items"
    proof (cases "extname name \<in> set exts")
      case True
      from 3(1)[OF True 2] show ?thesis .
    next
      case False
      from 3(2)[OF False 2] show ?thesis .
    qed
    then show ?thesis by auto
  qed
next
  case (4 exts cur name items)
  then have "\<exists>k r. p = cur @ k # r \<and> k \<in> fst ` set items" by simp
  then show ?case by auto
qed simp


lemma matchingFiles_in_items:
  assumes "p \<in> set (matchingFiles exts cur items)" "name \<notin> fst ` set items"
    "\<exists>q c. p = cur @ q \<and> readNode q (Dir items) = Some (File c)"
  shows "\<exists>q c. p = cur @ q \<and> readNode q (Dir ((name, n) # items)) = Some (File c)"
proof -
  from assms(3) obtain q c where q: "p = cur @ q" "readNode q (Dir items) = Some (File c)" by blast
  from matchingFiles_first[OF assms(1)] obtain k r where "p = cur @ k # r" "k \<in> fst ` set items"
    by blast
  with q(1) assms(2) have "q = k # r" "k \<noteq> name" by auto
  with q show ?thesis by auto
qed

lemma distinctNames_tail: "distinctNames (e # items) \<Longrightarrow> distinctNames items"
  by (cases e; cases "snd e") auto

lemma distinctNames_head: "distinctNames ((name, n) # items) \<Longrightarrow> name \<notin> fst ` set items"
  by (cases n) auto

lemma matchingFiles_files:
  "distinctNames items \<Longrightarrow> p \<in> set (matchingFiles exts cur items) \<Longrightarrow>
   \<exists>q c. p = cur @ q \<and> readNode q (Dir items) = Some (File c)"
proof (induction exts cur items rule: matchingFiles.induct)
  case (2 exts cur name sub items)
  have nm: "name \<notin> fst ` set items" and ds: "distinctNames sub" and di: "distinctNames items"
    using 2(4) by simp_all
  consider "p \<in> set (matchingFiles exts cur items)"
    | "name \<notin> set excludedDirs" "p \<in> set (matchingFiles exts (cur @ [name]) sub)"
    using 2(5) by (auto split: if_splits)
  then show ?case
  proof cases
    case 1
    have "\<exists>q c. p = cur @ q \<and> readNode q (Dir items) = Some (File c)"
    proof (cases "name \<in> set excludedDirs")
      case True
      from 2(1)[OF True di 1] show ?thesis .
    next
      case False
      from 2(3)[OF False di 1] show ?thesis .
    qed
    with 1 nm show ?thesis by (rule matchingFiles_in_items)
  next
    case 2
    from "2.IH"(2)[OF 2(1) ds 2(2)] obtain q c where
      "p = (cur @ [name]) @ q" "readNode q (Dir sub) = Some (File c)" by blast
    then show ?thesis
      by (intro exI[of _ "name # q"] exI[of _ c]) simp
  qed
next
  case (3 exts cur name content items)
  have nm: "name \<notin> fst ` set items" and di: "distinctNames items"
    using 3(3) by simp_all
  consider "p = cur @ [name]" | "p \<in> set (matchingFiles exts cur items)"
    using 3(4) by (auto split: if_splits)
  then show ?case
  proof cases
    case 1
    then show ?thesis by (intro exI[of _ "[name]"] exI[of _ content]) simp
  next
    case 2
    have "\<exists>q c. p = cur @ q \<and> readNode q (Dir items) = Some (File c)"
    proof (cases "extname name \<in> set exts")
      case True
      from 3(1)[OF True di 2] show ?thesis .
    next
      case False
      from 3(2)[OF False di 2] show ?thesis .
    qed
    with 2 nm show ?thesis by (rule matchingFiles_in_items)
  qed
next
  case (4 exts cur name items)
  have nm: "name \<notin> fst ` set items" and di: "distinctNames items"
    using 4(2) by simp_all
  from 4(3) have p: "p \<in> set (matchingFiles exts cur items)" by simp
  from 4(1)[OF di p] have "\<exists>q c. p = cur @ q \<and> readNode q (Dir items) = Some (File c)" .
  with p nm show ?case by (rule matchingFiles_in_items)
qed simp

lemma matchingFiles_distinct:
  "distinctNames items \<Longrightarrow> distinct (matchingFiles exts cur items)"
proof (induction exts cur items rule: matchingFiles.induct)
  case (2 exts cur name sub items)
  have nm: "name \<notin> fst ` set items" and ds: "distinctNames sub" and di: "distinctNames items"
    using 2(4) by simp_all
  show ?case
  proof (cases "name \<in> set excludedDirs")
    case True
    with 2(1)[OF True di] show ?thesis by simp
  next
    case False
    have "set (matchingFiles exts (cur @ [name]) sub) \<inter> set (matchingFiles exts cur items) = {}"
    proof (rule ccontr)
      assume "\<not> ?thesis"
      then obtain p where a: "p \<in> set (matchingFiles exts (cur @ [name]) sub)"
        and b: "p \<in> set (matchingFiles exts cur items)" by auto
      from matchingFiles_paths[OF a] obtain q where "p = (cur @ [name]) @ q" by blast
      moreover from matchingFiles_first[OF b] obtain k r where "p = cur @ k # r" "k \<in> fst ` set items"
        by blast
      ultimately show False using nm by auto
    qed
    with 2(2)[OF False ds] 2(3)[OF False di] False show ?thesis by simp
  qed
next
  case (3 exts cur name content items)
  have nm: "name \<notin> fst ` set items" and di: "distinctNames items"
    using 3(3) by simp_all
  have "cur @ [name] \<notin> set (matchingFiles exts cur items)"
  proof
    assume "cur @ [name] \<in> set (matchingFiles exts cur items)"
    from matchingFiles_first[OF this] nm show False by auto
  qed
  with 3(1,2) di show ?case by (cases "extname name \<in> set exts") simp_all
next
  case (4 exts cur name items)
  then show ?case by simp
qed simp


text \<open>The console only grows.\<close>

lemma grows_refl [simp]: "grows s s"
  by (simp add: grows_def)

lemma grows_trans: "grows a b \<Longrightarrow> grows b c \<Longrightarrow> grows a c"
  by (auto simp: grows_def)

lemma grows_line [simp]:
  "grows s (warn m s)" "grows s (consoleLog m s)" "grows s (consoleError m s)"
  by (simp_all add: grows_def warn_def consoleLog_def consoleError_def)

lemma replaceAll_grows:
  assumes "\<And>m c s. grows s (snd (f m c s))"
  shows "grows st (snd (replaceAll rx f s st))"
  using assms
proof (induction rx f s st rule: replaceAll.induct)
  case (1 rx f st)
  show ?case
  proof (cases "rmatch rx [] False []")
    case None
    then show ?thesis by simp
  next
    case (Some m)
    obtain cap rest where "m = (cap, rest)" by (cases m)
    with Some show ?thesis by (simp add: 1)
  qed
next
  case (2 rx f x xs st)
  show ?case
  proof (cases "rmatch rx (x # xs) False []")
    case None
    obtain out st' where r: "replaceAll rx f xs st = (out, st')" by (cases "replaceAll rx f xs st")
    with 2(1)[OF None 2(4)] have "grows st st'" by simp
    with None r show ?thesis by simp
  next
    case (Some m)
    obtain cap rest where m: "m = (cap, rest)" by (cases m)
    show ?thesis
    proof (cases "length rest < length (x # xs)")
      case True
      obtain new st1 where f: "f (take (length (x # xs) - length rest) (x # xs)) cap st = (new, st1)"
        by (cases "f (take (length (x # xs) - length rest) (x # xs)) cap st")
      have "grows st st1" using 2(4)[of st "take (length (x # xs) - length rest) (x # xs)" cap] f by simp
      moreover have "grows st1 (snd (replaceAll rx f rest st1))"
        using 2(2)[OF Some _ True f[symmetric] 2(4)] m by simp
      ultimately have "grows st (snd (replaceAll rx f rest st1))" by (rule grows_trans)
      then show ?thesis using Some m True f by (auto split: prod.splits)
    next
      case False
      obtain new st1 where f: "f [] cap st = (new, st1)" by (cases "f [] cap st")
      have "grows st st1" using 2(4)[of st "[]" cap] f by simp
      moreover have "grows st1 (snd (replaceAll rx f xs st1))"
        using 2(3)[OF Some _ False f[symmetric] 2(4)] m by simp
      ultimately have "grows st (snd (replaceAll rx f xs st1))" by (rule grows_trans)
      then show ?thesis using Some m False f by (auto split: prod.splits)
    qed
  qed
qed

lemma processTemplate_grows: "grows st (snd (processTemplate content data filePath st))"
proof -
  have 1: "grows s (snd (substituteVariables c data filePath s))" for c s
    unfolding substituteVariables_def
    by (rule replaceAll_grows) (simp add: variableReplacer_def Let_def)
  have 2: "grows s (snd (selectRandom c s))" for c s
    unfolding selectRandom_def
    by (rule replaceAll_grows)
      (simp add: selectionReplacer_def Let_def grows_def warn_def)
  obtain c1 s1 where s: "substituteVariables content data filePath st = (c1, s1)"
    by (cases "substituteVariables content data filePath st")
  with 1[of st content] 2[of s1 c1] show ?thesis
    by (auto simp: processTemplate_def intro: grows_trans)
qed

lemma processFile_grows:
  assumes "processFile flt dirPath f data (tree, st) = (r, (tree', st'))"
  shows "grows st st'"
proof -
  have g: "grows st (snd (processTemplate c data p st))" for c p
    by (rule processTemplate_grows)
  have g2: "grows st (consoleError m (snd (processTemplate c data p st)))" for c p m
    by (rule grows_trans[OF g[of c p]]) simp
  show ?thesis
    using assms g g2
    by (auto simp: processFile_def Let_def split: option.splits sum.splits prod.splits)
      (metis snd_conv)+
qed

lemma processFiles_grows:
  assumes "processFiles flt dirPath data files (tree, st) = (r, (tree', st'))"
  shows "grows st st'"
  using assms
proof (induction files arbitrary: tree st)
  case Nil
  then show ?case by simp
next
  case (Cons f files)
  obtain r1 tree1 st1 where 1: "processFile flt dirPath f data (tree, st) = (r1, (tree1, st1))"
    by (metis prod.exhaust)
  from processFile_grows[OF 1] have g: "grows st st1" .
  show ?case
  proof (cases r1)
    case (Inl e)
    with Cons.prems 1 g show ?thesis by simp
  next
    case (Inr u)
    with Cons.prems 1 have "processFiles flt dirPath data files (tree1, st1) = (r, (tree', st'))"
      by simp
    from grows_trans[OF g Cons.IH[OF this]] show ?thesis .
  qed
qed


text \<open>Failures inside excluded directories cannot be observed: nothing is called there.\<close>

lemma traverseDirectory_agree:
  "agreeOutside dirPath flt flt' \<Longrightarrow> set cur \<inter> set excludedDirs = {} \<Longrightarrow>
   traverseDirectory flt dirPath exts cur items files =
   traverseDirectory flt' dirPath exts cur items files"
proof (induction flt dirPath exts cur items files rule: traverseDirectory.induct)
  case (2 flt dirPath exts cur name sub items files)
  show ?case
  proof (cases "name \<in> set excludedDirs")
    case True
    with 2(3)[OF refl _ 2(4,5)] show ?thesis by (simp add: Let_def)
  next
    case False
    with 2(5) have c: "set (pathJoin cur name) \<inter> set excludedDirs = {}"
      by (auto simp: pathJoin_def)
    with 2(4) have rd: "flt (Readdir (dirPath @ pathJoin cur name)) = flt' (Readdir (dirPath @ pathJoin cur name))"
      by (simp add: agreeOutside_def)
    show ?thesis
    proof (cases "flt (Readdir (dirPath @ pathJoin cur name))")
      case (Some e)
      with rd have "flt' (Readdir (dirPath @ pathJoin cur name)) = Some e" by simp
      with Some False show ?thesis by (simp add: Let_def)
    next
      case None
      with rd have None': "flt' (Readdir (dirPath @ pathJoin cur name)) = None" by simp
      note sub = 2(1)[OF refl False None 2(4) c]
      show ?thesis
      proof (cases "traverseDirectory flt dirPath exts (pathJoin cur name) sub files")
        case (Inl e)
        with sub have "traverseDirectory flt' dirPath exts (pathJoin cur name) sub files = Inl e"
          by simp
        with Inl None None' False show ?thesis by (simp add: Let_def)
      next
        case (Inr files')
        with sub have "traverseDirectory flt' dirPath exts (pathJoin cur name) sub files = Inr files'"
          by simp
        with 2(2)[OF refl False None Inr 2(4,5)] None None' False Inr show ?thesis
          by (simp add: Let_def)
      qed
    qed
  qed
next
  case (3 flt dirPath exts cur name content items files)
  then show ?case by (simp add: Let_def)
qed simp_all

lemma getAllFiles_agree:
  "agreeOutside dirPath flt flt' \<Longrightarrow>
   getAllFiles flt dirPath exts tree = getAllFiles flt' dirPath exts tree"
proof -
  assume a: "agreeOutside dirPath flt flt'"
  then have "set [] \<inter> set excludedDirs = {} \<longrightarrow>
      flt (Readdir (dirPath @ [])) = flt' (Readdir (dirPath @ []))"
    unfolding agreeOutside_def by blast
  with traverseDirectory_agree[OF a, of "[]"] show ?thesis
    by (simp add: getAllFiles_def split: fsnode.splits option.splits)
qed

lemma processFile_agree:
  assumes "agreeOutside dirPath flt flt'" "\<not> insideExcluded f"
  shows "processFile flt dirPath f data s = processFile flt' dirPath f data s"
proof -
  from assms have eq: "flt (ReadFile (dirPath @ f)) = flt' (ReadFile (dirPath @ f))"
    "flt (WriteFile (dirPath @ f)) = flt' (WriteFile (dirPath @ f))"
    by (simp_all add: agreeOutside_def)
  show ?thesis unfolding processFile_def Let_def eq by (rule refl)
qed

lemma processFiles_agree:
  assumes "agreeOutside dirPath flt flt'" "\<forall>f \<in> set files. \<not> insideExcluded f"
  shows "processFiles flt dirPath data files s = processFiles flt' dirPath data files s"
  using assms(2)
proof (induction files arbitrary: s)
  case Nil
  show ?case by simp
next
  case (Cons f files)
  then show ?case
    using processFile_agree[OF assms(1), of f data s]
    by (simp split: prod.splits sum.splits)
qed

lemma matchingFiles_outside: "f \<in> set (matchingFiles exts [] items) \<Longrightarrow> \<not> insideExcluded f"
  using matchingFiles_paths[of f exts "[]" items] by (auto simp: insideExcluded_def)

lemma processDirectory_agree:
  assumes "agreeOutside dirPath flt flt'"
  shows "processDirectory flt dirPath data exts s = processDirectory flt' dirPath data exts s"
proof -
  obtain tree st where s: "s = (tree, st)" by (cases s)
  note g = getAllFiles_agree[OF assms, of exts tree]
  show ?thesis
  proof (cases "getAllFiles flt dirPath exts tree")
    case (Inl e)
    with g have "getAllFiles flt' dirPath exts tree = Inl e" by simp
    with Inl s show ?thesis by (simp add: processDirectory_def)
  next
    case (Inr files)
    with g have g': "getAllFiles flt' dirPath exts tree = Inr files" by simp
    from getAllFiles_matching[OF Inr] have "\<forall>f \<in> set files. \<not> insideExcluded f"
      using matchingFiles_outside by blast
    from processFiles_agree[OF assms this] Inr g' s
    show ?thesis by (simp add: processDirectory_def Let_def)
  qed
qed

section \<open>The claims\<close>

lemmas template_defs =
  processTemplate_def substituteVariables_def selectRandom_def rxVariable_def rxSelection_def
  variableReplacer_def selectionReplacer_def variableWarning_def selectionWarning_def
  choicesOf_def trim_def str_def isJsFile_def endsWith_def startsWith_def
  escapeForJS_def replaceStr_def warn_def token_def span_def
  isSpace_def isWordChar_def isDot_def isLineTerminator_def isIdentifier_def isSpanBody_def
  exampleRow_def rowWithTitle_def initialState_def Let_def
























lemma replaceStr_Lit:
  "replaceStr [Lit c] new s = concat (map (\<lambda>x. if x = c then new else [x]) s)"
proof -
  have "replaceAll [Lit c] (\<lambda>m cap st. (new, st)) s () =
      (concat (map (\<lambda>x. if x = c then new else [x]) s), ())"
    by (induction s) simp_all
  then show ?thesis by (simp add: replaceStr_def)
qed

lemma escapeForJS_append: "escapeForJS (s @ t) = escapeForJS s @ escapeForJS t"
  by (simp add: escapeForJS_def replaceStr_Lit)

lemma escapeForJS_single: "escapeForJS [c] = escapeChar c"
  by (simp add: escapeForJS_def replaceStr_Lit escapeChar_def)

lemma escapeForJS_chars: "escapeForJS s = concat (map escapeChar s)"
proof (induction s)
  case Nil
  show ?case by (simp add: escapeForJS_def replaceStr_Lit)
next
  case (Cons x xs)
  have "escapeForJS (x # xs) = escapeForJS [x] @ escapeForJS xs"
    using escapeForJS_append[of "[x]" xs] by simp
  with Cons show ?case by (simp add: escapeForJS_single)
qed

text \<open>
  C2 (the code misses a case). \<open>escapeForJS\<close> escapes the two quote characters, the
  line feed and the carriage return, and copies every backslash of the value as it is: in a
  script file, a value that ends in a backslash escapes the quote that closes the literal
  it is inserted into.
\<close>

theorem escapeForJS_keeps_backslash:
  "escapeForJS (s @ [0x5C] @ t) = escapeForJS s @ [0x5C] @ escapeForJS t \<and>
   fst (processTemplate (str ''t = '' @ [0x27] @ str ''{{ title }}'' @ [0x27] @ str '';'')
          (rowWithTitle [0x5C]) (str ''store.js'') initialState)
     = str ''t = '' @ [0x27, 0x5C, 0x27] @ str '';''"
proof -
  have "escapeForJS (s @ [0x5C] @ t) = escapeForJS s @ [0x5C] @ escapeForJS t"
    by (simp add: escapeForJS_chars escapeChar_def)
  moreover have "fst (processTemplate (str ''t = '' @ [0x27] @ str ''{{ title }}'' @ [0x27] @ str '';'')
          (rowWithTitle [0x5C]) (str ''store.js'') initialState)
     = str ''t = '' @ [0x27, 0x5C, 0x27] @ str '';''"
    by (simp add: template_defs)
  ultimately show ?thesis by simp
qed








lemmas walker_defs =
  getAllFiles_def processDirectory_def processFile_def fsRead_def extname_def excludedDirs_def
  defaultExtensions_def pathJoin_def exampleItems_def noFaults_def failingInside_def
  insideExcluded_def processingMessage_def processedMessage_def consoleLog_def consoleError_def

lemma insideExcluded_Cons:
  "r \<noteq> [] \<Longrightarrow> insideExcluded (k # r) \<longleftrightarrow> k \<in> set excludedDirs \<or> insideExcluded r"
  by (auto simp: insideExcluded_def)

lemma matchingFiles_complete:
  "readNode q (Dir items) = Some (File c) \<Longrightarrow> q \<noteq> [] \<Longrightarrow> extname (last q) \<in> set exts \<Longrightarrow>
   \<not> insideExcluded q \<Longrightarrow> distinctNames items \<Longrightarrow> cur @ q \<in> set (matchingFiles exts cur items)"
proof (induction exts cur items arbitrary: q rule: matchingFiles.induct)
  case (1 exts cur)
  then show ?case by (cases q) auto
next
  case (2 exts cur name sub items)
  from 2(5) obtain k r where q: "q = k # r" by (cases q) auto
  have di: "distinctNames items" and ds: "distinctNames sub" using 2(8) by simp_all
  show ?case
  proof (cases "k = name")
    case True
    with 2(4) q have rd: "readNode r (Dir sub) = Some (File c)" by simp
    then have r: "r \<noteq> []" by auto
    with 2(7) q True have ne: "name \<notin> set excludedDirs" and nr: "\<not> insideExcluded r"
      by (simp_all add: insideExcluded_Cons)
    from 2(6) q r have ext: "extname (last r) \<in> set exts" by simp
    from "2.IH"(2)[OF ne rd r ext nr ds] q True ne show ?thesis by simp
  next
    case False
    with 2(4) q have rd: "readNode q (Dir items) = Some (File c)" by simp
    have "cur @ q \<in> set (matchingFiles exts cur items)"
    proof (cases "name \<in> set excludedDirs")
      case True
      from "2.IH"(1)[OF True rd 2(5,6,7) di] show ?thesis .
    next
      case False
      from "2.IH"(3)[OF False rd 2(5,6,7) di] show ?thesis .
    qed
    then show ?thesis by simp
  qed
next
  case (3 exts cur name content items)
  from 3(4) obtain k r where q: "q = k # r" by (cases q) auto
  have di: "distinctNames items" using 3(7) by simp
  show ?case
  proof (cases "k = name")
    case True
    with 3(3) q have "r = []" by (cases r) auto
    with 3(5) q True show ?thesis by simp
  next
    case False
    with 3(3) q have rd: "readNode q (Dir items) = Some (File c)" by simp
    have "cur @ q \<in> set (matchingFiles exts cur items)"
    proof (cases "extname name \<in> set exts")
      case True
      from "3.IH"(1)[OF True rd 3(4,5,6) di] show ?thesis .
    next
      case False
      from "3.IH"(2)[OF False rd 3(4,5,6) di] show ?thesis .
    qed
    then show ?thesis by simp
  qed
next
  case (4 exts cur name items)
  from 4(3) obtain k r where q: "q = k # r" by (cases q) auto
  have di: "distinctNames items" using 4(6) by simp
  show ?case
  proof (cases "k = name")
    case True
    with 4(2) q show ?thesis by (cases r) auto
  next
    case False
    with 4(2) q have rd: "readNode q (Dir items) = Some (File c)" by simp
    from "4.IH"[OF rd 4(3,4,5) di] show ?thesis by simp
  qed
qed

text \<open>
  C5. The walker lists no file that lies inside a directory with an excluded name, at
  any depth; whatever \<open>processDirectory\<close> does, succeeding or failing, every path inside
  such a directory holds after it what it held before; and no call is made there: an
  environment in which reads and writes inside excluded directories fail gives the very
  same run.
\<close>

theorem walker_prunes_excluded_directories:
  "(getAllFiles flt dirPath exts tree = Inr files \<longrightarrow> (\<forall>p \<in> set files. \<not> insideExcluded p)) \<and>
   (insideExcluded q \<longrightarrow>
      readNode q (fst (snd (processDirectory flt dirPath data exts (tree, st)))) = readNode q tree) \<and>
   (agreeOutside dirPath flt flt' \<longrightarrow>
      processDirectory flt' dirPath data exts (tree, st) =
      processDirectory flt dirPath data exts (tree, st))"
proof -
  have 1: "\<forall>p \<in> set files. \<not> insideExcluded p" if "getAllFiles flt dirPath exts tree = Inr files"
    using getAllFiles_matching[OF that] matchingFiles_outside by blast
  have 2: "readNode q (fst (snd (processDirectory flt dirPath data exts (tree, st)))) = readNode q tree"
    if "insideExcluded q"
  proof -
    obtain r tree' st' where "processDirectory flt dirPath data exts (tree, st) = (r, (tree', st'))"
      by (metis prod.exhaust)
    with processDirectory_frame[OF this that] show ?thesis by simp
  qed
  have 3: "processDirectory flt' dirPath data exts (tree, st) =
      processDirectory flt dirPath data exts (tree, st)" if "agreeOutside dirPath flt flt'"
    using processDirectory_agree[OF that] by simp
  from 1 2 3 show ?thesis by blast
qed

theorem walker_prunes_excluded_directories_witness:
  "getAllFiles noFaults [] defaultExtensions (Dir exampleItems) =
     Inr [[str ''index.html''], [str ''src'', str ''App.js''], [str ''builder.js'']] \<and>
   \<not> insideExcluded [str ''src'', str ''App.js''] \<and>
   insideExcluded [str ''src'', str ''node_modules'', str ''lib.js''] \<and>
   readNode [str ''src'', str ''node_modules'', str ''lib.js'']
     (fst (snd (processDirectory noFaults [] exampleRow defaultExtensions (Dir exampleItems, initialState))))
     = Some (File (str ''{{title}}'')) \<and>
   agreeOutside [] noFaults failingInside \<and>
   processDirectory failingInside [] exampleRow defaultExtensions (Dir exampleItems, initialState) =
   processDirectory noFaults [] exampleRow defaultExtensions (Dir exampleItems, initialState)"
proof -
  let ?files = "[[str ''index.html''], [str ''src'', str ''App.js''], [str ''builder.js'']]"
  let ?q = "[str ''src'', str ''node_modules'', str ''lib.js'']"
  note T = walker_prunes_excluded_directories[where flt = noFaults and dirPath = "[]"
      and exts = defaultExtensions and tree = "Dir exampleItems" and files = ?files and q = ?q
      and data = exampleRow and st = initialState and flt' = failingInside]
  have a: "getAllFiles noFaults [] defaultExtensions (Dir exampleItems) = Inr ?files"
    by (simp add: walker_defs str_def)
  have b: "insideExcluded ?q"
    by (simp add: insideExcluded_def excludedDirs_def str_def)
  have c: "agreeOutside [] noFaults failingInside"
    unfolding agreeOutside_def noFaults_def failingInside_def
    by (auto simp: insideExcluded_def excludedDirs_def str_def)
  have d: "readNode ?q (Dir exampleItems) = Some (File (str ''{{title}}''))"
    by (simp add: exampleItems_def str_def)
  from T a have "\<not> insideExcluded [str ''src'', str ''App.js'']" by simp
  moreover from T b d have "readNode ?q
     (fst (snd (processDirectory noFaults [] exampleRow defaultExtensions (Dir exampleItems, initialState))))
     = Some (File (str ''{{title}}''))" by simp
  moreover from T c have "processDirectory failingInside [] exampleRow defaultExtensions (Dir exampleItems, initialState) =
     processDirectory noFaults [] exampleRow defaultExtensions (Dir exampleItems, initialState)" by blast
  ultimately show ?thesis using a b c by blast
qed




lemma processDirectory_success:
  assumes "processDirectory flt dirPath data exts (tree, st) = (Inr v, (tree', st'))"
  shows "\<exists>items st2. tree = Dir items \<and> v = Undefined \<and>
     getAllFiles flt dirPath exts tree = Inr (matchingFiles exts [] items) \<and>
     processFiles flt dirPath data (matchingFiles exts [] items)
       (tree, consoleLog (processingMessage (length (matchingFiles exts [] items))) st)
       = (Inr (), (tree', st2)) \<and>
     st' = consoleLog (processedMessage (length (matchingFiles exts [] items))) st2"
proof (cases "getAllFiles flt dirPath exts tree")
  case (Inl e)
  with assms show ?thesis by (simp add: processDirectory_def)
next
  case (Inr files)
  from getAllFiles_matching[OF Inr] obtain items where
    t: "tree = Dir items" and f: "files = matchingFiles exts [] items" by blast
  obtain r1 tree1 st1 where 1: "processFiles flt dirPath data files
      (tree, consoleLog (processingMessage (length files)) st) = (r1, (tree1, st1))"
    by (metis prod.exhaust)
  show ?thesis
  proof (cases r1)
    case (Inl e)
    with assms Inr 1 show ?thesis by (simp add: processDirectory_def Let_def)
  next
    case r: (Inr u)
    with assms Inr 1 have "v = Undefined" "tree' = tree1"
      "st' = consoleLog (processedMessage (length files)) st1"
      by (simp_all add: processDirectory_def Let_def)
    with t f Inr 1 r show ?thesis by auto
  qed
qed

text \<open>
  C9 (amended). \<open>processDirectory\<close> does not return a count: when it does not throw, it
  resolves to \<^verbatim>\<open>undefined\<close>. The count is what it logs, before and after the files:
  the number of files below the root, directories with an excluded name pruned, whose
  extension is in the set. In a tree whose directories hold distinct names these files are
  listed once each, every one of them then holds the output of the Substitution Engine for
  its former text, and every other file holds what it held.
\<close>

theorem processDirectory_logs_count:
  assumes "processDirectory flt dirPath data exts (tree, st) = (Inr v, (tree', st'))"
  shows "v = Undefined \<and>
    (\<exists>items ws.
       tree = Dir items \<and>
       console st' =
         console st @ [processingMessage (length (matchingFiles exts [] items))] @ ws @
           [processedMessage (length (matchingFiles exts [] items))] \<and>
       (distinctNames items \<longrightarrow>
          distinct (matchingFiles exts [] items) \<and>
          (\<forall>p c. readNode p tree = Some (File c) \<longrightarrow>
             (p \<in> set (matchingFiles exts [] items) \<longleftrightarrow>
                p \<noteq> [] \<and> extname (last p) \<in> set exts \<and> \<not> insideExcluded p) \<and>
             (if p \<in> set (matchingFiles exts [] items)
              then \<exists>s. readNode p tree' =
                     Some (File (fst (processTemplate c data (pathString (dirPath @ p)) s)))
              else readNode p tree' = Some (File c)))))"
proof -
  from processDirectory_success[OF assms] obtain items st2 where
    t: "tree = Dir items" and v: "v = Undefined"
    and run: "processFiles flt dirPath data (matchingFiles exts [] items)
       (tree, consoleLog (processingMessage (length (matchingFiles exts [] items))) st)
       = (Inr (), (tree', st2))"
    and st': "st' = consoleLog (processedMessage (length (matchingFiles exts [] items))) st2"
    by blast
  let ?files = "matchingFiles exts [] items"
  from processFiles_grows[OF run] obtain ws where
    "console st2 = console (consoleLog (processingMessage (length ?files)) st) @ ws"
    by (auto simp: grows_def)
  then have con: "console st' = console st @ [processingMessage (length ?files)] @ ws @
      [processedMessage (length ?files)]"
    by (simp add: st' consoleLog_def)
  have rest: "distinct ?files \<and>
      (\<forall>p c. readNode p tree = Some (File c) \<longrightarrow>
         (p \<in> set ?files \<longleftrightarrow> p \<noteq> [] \<and> extname (last p) \<in> set exts \<and> \<not> insideExcluded p) \<and>
         (if p \<in> set ?files
          then \<exists>s. readNode p tree' = Some (File (fst (processTemplate c data (pathString (dirPath @ p)) s)))
          else readNode p tree' = Some (File c)))"
    if dn: "distinctNames items"
  proof -
    have d: "distinct ?files" using dn by (rule matchingFiles_distinct)
    have fl: "\<forall>f \<in> set ?files. \<exists>c. readNode f tree = Some (File c)"
      using matchingFiles_files[OF dn, of _ exts "[]"] t by auto
    from processFiles_content[OF run d fl] have content:
      "\<forall>f \<in> set ?files. \<exists>c s. readNode f tree = Some (File c) \<and>
         readNode f tree' = Some (File (fst (processTemplate c data (pathString (dirPath @ f)) s)))" .
    have "(p \<in> set ?files \<longleftrightarrow> p \<noteq> [] \<and> extname (last p) \<in> set exts \<and> \<not> insideExcluded p) \<and>
         (if p \<in> set ?files
          then \<exists>s. readNode p tree' = Some (File (fst (processTemplate c data (pathString (dirPath @ p)) s)))
          else readNode p tree' = Some (File c))"
      if rd: "readNode p tree = Some (File c)" for p c
    proof -
      have iff: "p \<in> set ?files \<longleftrightarrow> p \<noteq> [] \<and> extname (last p) \<in> set exts \<and> \<not> insideExcluded p"
      proof
        assume "p \<in> set ?files"
        from matchingFiles_paths[OF this] matchingFiles_outside[OF this] show
          "p \<noteq> [] \<and> extname (last p) \<in> set exts \<and> \<not> insideExcluded p" by auto
      next
        assume "p \<noteq> [] \<and> extname (last p) \<in> set exts \<and> \<not> insideExcluded p"
        with matchingFiles_complete[of p items c exts "[]"] rd t dn show "p \<in> set ?files" by simp
      qed
      have "\<exists>s. readNode p tree' = Some (File (fst (processTemplate c data (pathString (dirPath @ p)) s)))"
        if "p \<in> set ?files"
        using content that rd by fastforce
      moreover have "readNode p tree' = Some (File c)" if np: "p \<notin> set ?files"
      proof -
        have "\<forall>f \<in> set ?files. \<not> prefix p f"
        proof
          fix f assume f: "f \<in> set ?files"
          with fl obtain c' where "readNode f tree = Some (File c')" by blast
          with rd f np show "\<not> prefix p f" by (intro file_not_prefix) auto
        qed
        from processFiles_frame[OF run this] rd show ?thesis by simp
      qed
      ultimately show ?thesis using iff by simp
    qed
    with d show ?thesis by blast
  qed
  from v t con rest show ?thesis by blast
qed


theorem processDirectory_logs_count_witness:
  "fst (processDirectory noFaults [] exampleRow defaultExtensions (Dir exampleItems, initialState))
     = Inr Undefined \<and>
   distinctNames exampleItems \<and>
   matchingFiles defaultExtensions [] exampleItems =
     [[str ''index.html''], [str ''src'', str ''App.js''], [str ''builder.js'']] \<and>
   (\<exists>s. readNode [str ''src'', str ''App.js'']
          (fst (snd (processDirectory noFaults [] exampleRow defaultExtensions (Dir exampleItems, initialState))))
        = Some (File (fst (processTemplate (str ''t = {{title}}'') exampleRow (str ''src/App.js'') s)))) \<and>
   readNode [str ''notes.txt'']
     (fst (snd (processDirectory noFaults [] exampleRow defaultExtensions (Dir exampleItems, initialState))))
     = Some (File (str ''{{title}}''))"
proof -
  let ?run = "processDirectory noFaults [] exampleRow defaultExtensions (Dir exampleItems, initialState)"
  have ok: "fst ?run = Inr Undefined"
    by (simp add: walker_defs template_defs)
  then have run: "?run = (Inr Undefined, (fst (snd ?run), snd (snd ?run)))"
    by (simp add: prod_eq_iff)
  have dn: "distinctNames exampleItems"
    by (simp add: exampleItems_def str_def)
  have mf: "matchingFiles defaultExtensions [] exampleItems =
     [[str ''index.html''], [str ''src'', str ''App.js''], [str ''builder.js'']]"
    by (simp add: walker_defs str_def)
  have rd: "readNode [str ''src'', str ''App.js''] (Dir exampleItems) = Some (File (str ''t = {{title}}''))"
    "readNode [str ''notes.txt''] (Dir exampleItems) = Some (File (str ''{{title}}''))"
    by (simp_all add: exampleItems_def str_def)
  have ps: "pathString ([] @ [str ''src'', str ''App.js'']) = str ''src/App.js''"
    by (simp add: str_def)
  from processDirectory_logs_count[OF run] obtain items where
    it: "Dir exampleItems = Dir items"
    and imp: "distinctNames items \<longrightarrow>
       distinct (matchingFiles defaultExtensions [] items) \<and>
       (\<forall>p c. readNode p (Dir exampleItems) = Some (File c) \<longrightarrow>
          (p \<in> set (matchingFiles defaultExtensions [] items) \<longleftrightarrow>
             p \<noteq> [] \<and> extname (last p) \<in> set defaultExtensions \<and> \<not> insideExcluded p) \<and>
          (if p \<in> set (matchingFiles defaultExtensions [] items)
           then \<exists>s. readNode p (fst (snd ?run)) =
                  Some (File (fst (processTemplate c exampleRow (pathString ([] @ p)) s)))
           else readNode p (fst (snd ?run)) = Some (File c)))"
    by blast
  from it have "items = exampleItems" by simp
  with imp dn have all:
    "\<And>p c. readNode p (Dir exampleItems) = Some (File c) \<Longrightarrow>
       (if p \<in> set (matchingFiles defaultExtensions [] exampleItems)
        then \<exists>s. readNode p (fst (snd ?run)) =
               Some (File (fst (processTemplate c exampleRow (pathString ([] @ p)) s)))
        else readNode p (fst (snd ?run)) = Some (File c))"
    by blast
  from all[OF rd(1)] have "\<exists>s. readNode [str ''src'', str ''App.js''] (fst (snd ?run))
       = Some (File (fst (processTemplate (str ''t = {{title}}'') exampleRow (str ''src/App.js'') s)))"
    unfolding mf ps by simp
  moreover from all[OF rd(2)] have "readNode [str ''notes.txt''] (fst (snd ?run)) = Some (File (str ''{{title}}''))"
    unfolding mf by (simp add: str_def)
  ultimately show ?thesis using ok dn mf by blast
qed

text \<open>
  C9 as stated fails: with three files processed, the call resolves to \<^verbatim>\<open>undefined\<close>, not
  to the count.
\<close>

theorem processDirectory_returns_undefined_counterexample:
  "length (matchingFiles defaultExtensions [] exampleItems) = 3 \<and>
   fst (processDirectory noFaults [] exampleRow defaultExtensions (Dir exampleItems, initialState))
     = Inr Undefined"
  by (simp add: walker_defs template_defs)



lemma startsWith_separator:
  assumes "0x2F \<notin> set P"
  shows "startsWith (name @ 0x2F # X) P \<longleftrightarrow> startsWith name P"
proof (cases "length P \<le> length name")
  case True
  then show ?thesis by (simp add: startsWith_def)
next
  case False
  then have l: "length name < length P" by simp
  have "take (length P) (name @ 0x2F # X) \<noteq> P"
  proof
    assume e: "take (length P) (name @ 0x2F # X) = P"
    have "take (length P) (name @ 0x2F # X) = name @ 0x2F # take (length P - Suc (length name)) X"
      using l by (simp add: take_Cons')
    with e have "P = name @ 0x2F # take (length P - Suc (length name)) X" by simp
    then have "0x2F \<in> set P" by (metis in_set_conv_decomp)
    with assms show False by simp
  qed
  moreover have "take (length P) name \<noteq> P"
  proof
    assume "take (length P) name = P"
    then have "length (take (length P) name) = length P" by simp
    with l show False by simp
  qed
  ultimately show ?thesis by (simp add: startsWith_def)
qed

lemma pathString_Cons:
  "r \<noteq> [] \<Longrightarrow> pathString (name # r) = name @ 0x2F # pathString r"
  by (cases r) simp_all

lemma copyFilter_first: "copyFilter (pathString (name # r)) = copyFilter name"
proof (cases r)
  case Nil
  then show ?thesis by simp
next
  case (Cons a b)
  have "0x2F \<notin> set (str ''node_modules'')" "0x2F \<notin> set (str ''build'')" "0x2F \<notin> set (str ''.git'')"
    by (simp_all add: str_def)
  then show ?thesis
    using Cons by (simp add: copyFilter_def pathString_Cons startsWith_separator)
qed

lemma copyFilter_root: "copyFilter []"
  by (simp add: copyFilter_def startsWith_def str_def)

text \<open>Below a top-level entry the filter accepts, it accepts everything.\<close>

lemma copyFilter_below:
  "rel \<noteq> [] \<Longrightarrow> copyFilter (hd rel) \<Longrightarrow> copyFilter (pathString (rel @ [name]))"
  by (cases rel) (simp_all add: copyFilter_first)

lemma copyItems_below:
  "rel \<noteq> [] \<Longrightarrow> copyFilter (hd rel) \<Longrightarrow> copyItems rel items = items"
proof (induction rel items rule: copyItems.induct)
  case (2 rel name sub items)
  from 2(4,5) have f: "copyFilter (pathString (rel @ [name]))" by (rule copyFilter_below)
  from 2(4,5) have "rel @ [name] \<noteq> []" "copyFilter (hd (rel @ [name]))" by simp_all
  from 2(1)[OF f this] 2(2)[OF f 2(4,5)] f show ?case by simp
qed (simp_all add: copyFilter_below)

lemma copyItems_top: "copyItems [] items = filter (\<lambda>(name, n). copyFilter name) items"
proof (induction items)
  case Nil
  show ?case by simp
next
  case (Cons e items)
  obtain name n where e: "e = (name, n)" by (cases e)
  show ?case
  proof (cases n)
    case (Dir sub)
    with e Cons copyItems_below[of "[name]" sub] show ?thesis by simp
  qed (use e Cons in simp_all)
qed








text \<open>
  C10. The copy filter looks at the text of the path below the template root and tests
  it for three prefixes. So what is left out is decided by the name of the top-level
  entry alone: an entry is dropped exactly when its name begins with \<^verbatim>\<open>node_modules\<close>,
  \<^verbatim>\<open>build\<close> or \<^verbatim>\<open>.git\<close> (as \<^verbatim>\<open>builder.js\<close>, \<^verbatim>\<open>build-tools\<close> and
  \<^verbatim>\<open>.gitignore\<close> do), and every other top-level entry is copied as it is, whatever the
  names below it.
\<close>

theorem copy_filter_matches_prefix_of_top_level_name:
  "copyFilter (pathString (name # r)) =
     (\<not> startsWith name (str ''node_modules'') \<and> \<not> startsWith name (str ''build'') \<and>
      \<not> startsWith name (str ''.git'')) \<and>
   copyTemplate (Dir items) =
     Some (Dir (filter (\<lambda>(name, n).
        \<not> startsWith name (str ''node_modules'') \<and> \<not> startsWith name (str ''build'') \<and>
        \<not> startsWith name (str ''.git'')) items)) \<and>
   \<not> copyFilter (str ''builder.js'') \<and> \<not> copyFilter (str ''build-tools'') \<and>
   \<not> copyFilter (str ''.gitignore'')"
proof -
  have "copyItems [] items = filter (\<lambda>(name, n).
        \<not> startsWith name (str ''node_modules'') \<and> \<not> startsWith name (str ''build'') \<and>
        \<not> startsWith name (str ''.git'')) items"
    unfolding copyItems_top by (simp add: copyFilter_def)
  moreover have "\<not> copyFilter (str ''builder.js'')" "\<not> copyFilter (str ''build-tools'')"
    "\<not> copyFilter (str ''.gitignore'')"
    by (simp_all add: copyFilter_def startsWith_def str_def)
  moreover have "copyFilter (pathString (name # r)) =
     (\<not> startsWith name (str ''node_modules'') \<and> \<not> startsWith name (str ''build'') \<and>
      \<not> startsWith name (str ''.git''))"
    unfolding copyFilter_first by (simp add: copyFilter_def)
  ultimately show ?thesis
    by (simp add: copyTemplate_def copyFilter_root)
qed


























end
